theory Spec2Isabelle
  imports Complex_Main "HOL-Library.Sublist"
begin

section \<open>Text primitives\<close>

text \<open>
  Message text is a list of 8-bit characters. \<open>str.lower()\<close> and \<open>str.upper()\<close> are
  modelled by their action on the ASCII letters; every other character is left as it
  is. All keyword lists and both identifier patterns of the program consist of ASCII
  letters, digits and spaces only.
\<close>

definition lower_char :: "char \<Rightarrow> char" where
  "lower_char c =
     (case map_of (zip ''ABCDEFGHIJKLMNOPQRSTUVWXYZ'' ''abcdefghijklmnopqrstuvwxyz'') c of
        Some d \<Rightarrow> d
      | None \<Rightarrow> c)"

definition upper_char :: "char \<Rightarrow> char" where
  "upper_char c =
     (case map_of (zip ''abcdefghijklmnopqrstuvwxyz'' ''ABCDEFGHIJKLMNOPQRSTUVWXYZ'') c of
        Some d \<Rightarrow> d
      | None \<Rightarrow> c)"

definition lower :: "string \<Rightarrow> string" where
  "lower s = map lower_char s"

definition upper :: "string \<Rightarrow> string" where
  "upper s = map upper_char s"

text \<open>\<open>contains s k\<close> is Python's \<open>k in s\<close> on strings: \<open>k\<close> occurs in \<open>s\<close> as a
  contiguous block.\<close>

fun contains :: "string \<Rightarrow> string \<Rightarrow> bool" where
  "contains [] k = (k = [])"
| "contains (c # cs) k = (prefix k (c # cs) \<or> contains cs k)"

text \<open>\<open>sum(1 for keyword in kws if keyword in s)\<close>\<close>

definition keyword_score :: "string list \<Rightarrow> string \<Rightarrow> int" where
  "keyword_score kws s = sum_list (map (\<lambda>k. 1) (filter (contains s) kws))"

text \<open>\<open>any(keyword in s for keyword in kws)\<close>\<close>

definition any_keyword :: "string list \<Rightarrow> string \<Rightarrow> bool" where
  "any_keyword kws s = list_ex (contains s) kws"


section \<open>Rule-based classifier (utils/validators.py)\<close>

definition refund_keywords :: "string list" where
  "refund_keywords =
     [''refund'', ''return'', ''money back'', ''cancel order'',
      ''invoice'', ''inv'', ''receipt'', ''transaction'']"

definition faq_keywords :: "string list" where
  "faq_keywords =
     [''product'', ''specification'', ''specs'', ''dimension'',
      ''feature'', ''how to'', ''compatible'', ''warranty'',
      ''shipping'', ''payment'', ''policy'']"

definition partnership_keywords :: "string list" where
  "partnership_keywords =
     [''partnership'', ''business'', ''wholesale'', ''bulk'',
      ''distributor'', ''reseller'', ''collaborate'']"

definition refund_score :: "string \<Rightarrow> int" where
  "refund_score query = keyword_score refund_keywords (lower query)"

definition faq_score :: "string \<Rightarrow> int" where
  "faq_score query = keyword_score faq_keywords (lower query)"

definition partnership_score :: "string \<Rightarrow> int" where
  "partnership_score query = keyword_score partnership_keywords (lower query)"

definition classify_query_intent :: "string \<Rightarrow> string" where
  "classify_query_intent query =
     (if refund_score query > faq_score query
         \<and> refund_score query > partnership_score query then ''refund''
      else if partnership_score query > faq_score query
         \<and> partnership_score query > refund_score query then ''partnership''
      else if faq_score query > 0 then ''faq''
      else ''other'')"

text \<open>The reading of the score as a count of occurrences: every position of the text
  at which a keyword starts adds 1.\<close>

fun occurrences :: "string \<Rightarrow> string \<Rightarrow> int" where
  "occurrences [] k = (if k = [] then 1 else 0)"
| "occurrences (c # cs) k = (if prefix k (c # cs) then 1 else 0) + occurrences cs k"

definition occurrence_score :: "string list \<Rightarrow> string \<Rightarrow> int" where
  "occurrence_score kws s = sum_list (map (occurrences s) kws)"


section \<open>Reconciliation of the AI category (\<open>TriageAgent\<close>)\<close>

definition valid_categories :: "string list" where
  "valid_categories = [''refund'', ''faq'', ''partnership'', ''other'']"

definition override_keywords :: "string list" where
  "override_keywords = [''refund'', ''return'', ''money back'', ''cancel'', ''invoice'']"

definition validate_classification :: "string \<Rightarrow> string \<Rightarrow> string \<Rightarrow> string" where
  "validate_classification ai_category rule_category user_input =
     (if ai_category \<notin> set valid_categories then rule_category
      else if rule_category = ''refund'' \<and> ai_category \<noteq> ''refund''
              \<and> any_keyword override_keywords (lower user_input) then ''refund''
      else ai_category)"


section \<open>Entity extractor (utils/validators.py)\<close>

definition is_digit :: "char \<Rightarrow> bool" where
  "is_digit c = (c \<in> set ''0123456789'')"

text \<open>An attempt to match the pattern \<open>lit\d{n}\<close> at the start of \<open>s\<close>; the match, if
  any, is the matched text (\<open>match.group()\<close>).\<close>

definition match_here :: "string \<Rightarrow> nat \<Rightarrow> string \<Rightarrow> string option" where
  "match_here lit n s =
     (if prefix lit s \<and> n \<le> length (drop (length lit) s)
         \<and> list_all is_digit (take n (drop (length lit) s))
      then Some (take (length lit + n) s)
      else None)"

text \<open>\<open>re.search\<close> for the pattern \<open>lit\d{n}\<close>: the match at the leftmost position
  that has one.\<close>

fun re_search :: "string \<Rightarrow> nat \<Rightarrow> string \<Rightarrow> string option" where
  "re_search lit n [] = match_here lit n []"
| "re_search lit n (c # cs) =
     (case match_here lit n (c # cs) of
        Some m \<Rightarrow> Some m
      | None \<Rightarrow> re_search lit n cs)"

record transaction_info =
  invoice_no :: "string option"
  customer_id :: "string option"

definition extract_transaction_info :: "string \<Rightarrow> transaction_info" where
  "extract_transaction_info text =
     (let text_upper = upper text in
      \<lparr> invoice_no = re_search ''INV'' 4 text_upper,
        customer_id = re_search ''CUST'' 3 text_upper \<rparr>)"


section \<open>Router (app.py)\<close>

text \<open>
  A triage result is a dictionary of which the router reads the keys \<open>category\<close> and
  \<open>confidence\<close>; either may be missing. The confidence stored there is a label or a
  number. Numbers are modelled as reals: the program compares a double with the
  literal 0.6, and as no double lies strictly between 0.6 and the double nearest to
  it, the comparison has the same outcome on the reals.
\<close>

datatype conf_value = Label string | Number real

record triage_result =
  result_category :: "string option"
  result_confidence :: "conf_value option"

record route_decision =
  route_to :: string
  route_confidence :: real

text \<open>\<open>confidence_map.get(confidence, 0.5)\<close>\<close>

definition confidence_map :: "string \<Rightarrow> real" where
  "confidence_map l =
     (if l = ''high'' then 0.8 else if l = ''medium'' then 0.6
      else if l = ''low'' then 0.4 else 0.5)"

text \<open>\<open>triage_result.get("category", "other")\<close>\<close>

definition routing_category :: "triage_result \<Rightarrow> string" where
  "routing_category tr = (case result_category tr of None \<Rightarrow> ''other'' | Some c \<Rightarrow> c)"

text \<open>\<open>triage_result.get("confidence", 0.5)\<close>, a label converted to its number.\<close>

definition routing_confidence :: "triage_result \<Rightarrow> real" where
  "routing_confidence tr =
     (case result_confidence tr of
        None \<Rightarrow> 0.5
      | Some (Number x) \<Rightarrow> x
      | Some (Label l) \<Rightarrow> confidence_map l)"

definition refund_indicators :: "string list" where
  "refund_indicators = [''refund'', ''return'', ''money back'', ''inv'', ''invoice'']"

definition faq_indicators :: "string list" where
  "faq_indicators = [''how'', ''what'', ''policy'', ''specification'', ''dimension'']"

definition refund_strength :: "string \<Rightarrow> int" where
  "refund_strength user_input = keyword_score refund_indicators (lower user_input)"

definition faq_strength :: "string \<Rightarrow> int" where
  "faq_strength user_input = keyword_score faq_indicators (lower user_input)"

text \<open>The \<open>context\<close> argument of the source is not read by the function and is left
  out.\<close>

definition determine_routing :: "triage_result \<Rightarrow> string \<Rightarrow> route_decision" where
  "determine_routing tr user_input =
     (let category = routing_category tr;
          confidence = routing_confidence tr;
          refund_strength = refund_strength user_input;
          faq_strength = faq_strength user_input
      in if category = ''refund'' \<and> confidence > 0.6
           then \<lparr> route_to = ''refund'', route_confidence = confidence \<rparr>
         else if category = ''faq'' \<and> confidence > 0.6
           then \<lparr> route_to = ''faq'', route_confidence = confidence \<rparr>
         else if refund_strength > faq_strength \<and> refund_strength > 0
           then \<lparr> route_to = ''refund'', route_confidence = 0.7 \<rparr>
         else if faq_strength > refund_strength \<and> faq_strength > 0
           then \<lparr> route_to = ''faq'', route_confidence = 0.7 \<rparr>
         else \<lparr> route_to = ''triage'', route_confidence = confidence \<rparr>)"


section \<open>FAQ resolution heuristic (\<open>FAQAgent\<close>)\<close>

definition resolution_indicators :: "string list" where
  "resolution_indicators =
     [''specifications'', ''policy'', ''days'', ''warranty'', ''shipping'',
      ''payment'', ''return'', ''compatible'', ''dimensions'', ''price'',
      ''size'', ''weight'', ''material'', ''color'', ''model'', ''version'']"

definition uncertainty_phrases :: "string list" where
  "uncertainty_phrases =
     [''i don't have'', ''not available'', ''contact support'',
      ''check our website'', ''i'm not sure'', ''unable to find'']"

definition indicator_count :: "string \<Rightarrow> int" where
  "indicator_count ai_response = keyword_score resolution_indicators (lower ai_response)"

text \<open>Of \<open>faq_results\<close> only the length is read, so its elements are of any type.\<close>

definition assess_resolution_quality :: "string \<Rightarrow> 'a list \<Rightarrow> string \<Rightarrow> bool" where
  "assess_resolution_quality user_input faq_results ai_response =
     (let response_lower = lower ai_response in
      if length ai_response > 100 \<and> indicator_count ai_response \<ge> 2 then True
      else if any_keyword uncertainty_phrases response_lower then False
      else length faq_results > 0 \<and> indicator_count ai_response > 0)"


section \<open>Handler responses (the dataclass \<open>AgentResponse\<close>)\<close>

text \<open>Values stored in the dictionaries that the handlers return.\<close>

datatype pyval =
    PStr string
  | PBool bool
  | PNum real
  | PList "pyval list"
  | PDict "(string \<times> pyval) list"

type_synonym pydict = "(string \<times> pyval) list"

text \<open>\<open>d.get(key)\<close> is \<open>map_of d key\<close>; \<open>d.get(key, default)\<close>:\<close>

definition dict_get :: "pydict \<Rightarrow> string \<Rightarrow> pyval \<Rightarrow> pyval" where
  "dict_get d key dflt = (case map_of d key of None \<Rightarrow> dflt | Some v \<Rightarrow> v)"

record agent_response =
  response :: string
  resolved :: bool
  category :: string
  confidence :: real
  needs_followup :: bool
  needs_more_info :: bool
  metadata :: "pydict option"

text \<open>The dataclass constructor with its three required fields; the other fields
  take the defaults of the dataclass.\<close>

definition AgentResponse :: "string \<Rightarrow> bool \<Rightarrow> string \<Rightarrow> agent_response" where
  "AgentResponse resp res cat =
     \<lparr> response = resp, resolved = res, category = cat, confidence = 0.5,
       needs_followup = False, needs_more_info = False, metadata = None \<rparr>"

definition to_dict :: "agent_response \<Rightarrow> pydict" where
  "to_dict r =
     [(''response'', PStr (response r)),
      (''resolved'', PBool (resolved r)),
      (''category'', PStr (category r)),
      (''confidence'', PNum (confidence r)),
      (''needs_followup'', PBool (needs_followup r)),
      (''needs_more_info'', PBool (needs_more_info r)),
      (''metadata'', PDict (case metadata r of None \<Rightarrow> [] | Some m \<Rightarrow> m))]"


section \<open>Handler boundaries (\<open>TriageAgent.process\<close>, \<open>RefundAgent.process\<close>, \<open>route_and_process\<close>)\<close>

text \<open>
  Each \<open>process\<close> method and \<open>route_and_process\<close> is one \<open>try\<close> block with an
  \<open>except Exception\<close> branch. The block either returns a dictionary or raises; the
  exception carries its message.
\<close>

datatype exn = Exception string

definition triage_error_response :: pydict where
  "triage_error_response =
     [(''category'', PStr ''other''),
      (''response'', PStr (''I'm sorry, I'm having trouble processing your request. ''
                           @ ''Please try again.'')),
      (''confidence'', PStr ''low''),
      (''needs_routing'', PBool False),
      (''resolved'', PBool False)]"

definition refund_error_response :: pydict where
  "refund_error_response =
     to_dict ((AgentResponse
        (''I apologize, but I'm experiencing technical difficulties. Please contact our ''
         @ ''customer service team directly for refund assistance.'')
        False ''refund'') \<lparr> needs_followup := True \<rparr>)"

definition app_error_response :: pydict where
  "app_error_response =
     [(''role'', PStr ''assistant''),
      (''content'', PStr (''I apologize, but I encountered an error processing your request. ''
                          @ ''Please try again or contact our support team.'')),
      (''metadata'', PDict
         [(''category'', PStr ''error''),
          (''resolved'', PBool False),
          (''needs_followup'', PBool True)])]"

text \<open>\<open>TriageAgent.process\<close>, \<open>RefundAgent.process\<close> and \<open>route_and_process\<close>, each
  applied to the outcome of its \<open>try\<close> block.\<close>

definition triage_process_boundary :: "exn + pydict \<Rightarrow> pydict" where
  "triage_process_boundary body =
     (case body of Inr result \<Rightarrow> result | Inl e \<Rightarrow> triage_error_response)"

definition refund_process_boundary :: "exn + pydict \<Rightarrow> pydict" where
  "refund_process_boundary body =
     (case body of Inr result \<Rightarrow> result | Inl e \<Rightarrow> refund_error_response)"

definition route_and_process_boundary :: "exn + pydict \<Rightarrow> pydict" where
  "route_and_process_boundary body =
     (case body of Inr result \<Rightarrow> result | Inl e \<Rightarrow> app_error_response)"

text \<open>The message that \<open>route_and_process\<close> builds from the dictionary of the handler
  that owned the turn; \<open>cat\<close> and \<open>conf\<close> are the category and the confidence of
  the triage result.\<close>

definition turn_message :: "pyval \<Rightarrow> pyval \<Rightarrow> pydict \<Rightarrow> pydict" where
  "turn_message cat conf result =
     [(''role'', PStr ''assistant''),
      (''content'', dict_get result ''response''
                      (PStr ''I apologize, but I couldn't process your request.'')),
      (''metadata'', PDict
         [(''category'', cat),
          (''confidence'', conf),
          (''resolved'', dict_get result ''resolved'' (PBool True)),
          (''needs_followup'', dict_get result ''needs_followup'' (PBool False))])]"


section \<open>Refund handler: collecting the identifiers (\<open>RefundAgent.process\<close>)\<close>

text \<open>Python's truth value of an optional string: \<open>None\<close> and the empty string are
  false.\<close>

definition truthy :: "string option \<Rightarrow> bool" where
  "truthy v = (case v of None \<Rightarrow> False | Some s \<Rightarrow> s \<noteq> [])"

text \<open>\<open>sep.join(xs)\<close>\<close>

fun join :: "string \<Rightarrow> string list \<Rightarrow> string" where
  "join sep [] = []"
| "join sep [x] = x"
| "join sep (x # y # ys) = x @ sep @ join sep (y # ys)"

text \<open>
  The session context is a dictionary of which the handler reads the key
  \<open>extracted_info\<close> here: \<open>None\<close> stands for a missing key, \<open>None\<close> or an empty
  dictionary, all of which are false in the test \<open>context.get("extracted_info")\<close>.
\<close>

record refund_context =
  extracted_info :: "transaction_info option"

text \<open>The bullet character of the source text is written \<open>*\<close>.\<close>

definition request_transaction_info :: "transaction_info \<Rightarrow> pydict" where
  "request_transaction_info extracted =
     (let missing_fields =
            (if \<not> truthy (invoice_no extracted)
             then [''Invoice Number (format: INV####)''] else [])
            @ (if \<not> truthy (customer_id extracted)
               then [''Customer ID (format: CUST###)''] else []);
          text =
            ''To process your refund request, I need the following information:'' @ [CHR 0x0A]
            @ join [CHR 0x0A] (map (\<lambda>field. ''* '' @ field) missing_fields)
            @ '' and please tell us the reason of return.'' @ [CHR 0x0A, CHR 0x0A]
            @ ''You can find these details in your order confirmation email or receipt.''
      in to_dict ((AgentResponse text False ''refund'')
           \<lparr> needs_more_info := True,
             metadata := Some [(''missing_fields'', PList (map PStr missing_fields))] \<rparr>))"

text \<open>
  The first part of \<open>RefundAgent.process\<close>, up to the call of
  \<open>self.db.verify_transaction(invoice_no, customer_id)\<close>: either the request for the
  missing identifiers is returned, or the handler goes on to the lookup with the two
  identifiers it settled on.
\<close>

datatype refund_step =
    Respond pydict
  | VerifyTransaction string string

definition refund_process :: "string \<Rightarrow> refund_context option \<Rightarrow> refund_step" where
  "refund_process user_input context =
     (let extracted = extract_transaction_info user_input;
          from_context = (case context of None \<Rightarrow> None | Some c \<Rightarrow> extracted_info c);
          ids = (case from_context of
                   Some info \<Rightarrow>
                     if \<not> truthy (invoice_no extracted)
                     then (invoice_no info, customer_id info)
                     else (invoice_no extracted, customer_id extracted)
                 | None \<Rightarrow> (invoice_no extracted, customer_id extracted))
      in case ids of
           (Some invoice, Some customer) \<Rightarrow>
             if invoice = [] \<or> customer = []
             then Respond (request_transaction_info extracted)
             else VerifyTransaction invoice customer
         | _ \<Rightarrow> Respond (request_transaction_info extracted))"


section \<open>Response cache (\<open>BaseAgent\<close>, \<open>Config\<close>)\<close>

definition MAX_CACHE_SIZE :: nat where
  "MAX_CACHE_SIZE = 100"

text \<open>
  The cache is a dictionary from the cache key to the pair of the time of insertion
  and the response. It is kept as the list of its items in the order in which the
  dictionary iterates, which is the order in which the keys were first stored.
\<close>

type_synonym 't cache = "(string \<times> 't \<times> string) list"

text \<open>\<open>del d[key]\<close> and \<open>d[key] = v\<close>: a key that is present keeps its place, a new key
  goes to the end.\<close>

definition dict_delete :: "string \<Rightarrow> (string \<times> 'v) list \<Rightarrow> (string \<times> 'v) list" where
  "dict_delete key d = filter (\<lambda>e. fst e \<noteq> key) d"

fun dict_store :: "string \<Rightarrow> 'v \<Rightarrow> (string \<times> 'v) list \<Rightarrow> (string \<times> 'v) list" where
  "dict_store key v [] = [(key, v)]"
| "dict_store key v (e # es) = (if fst e = key then (key, v) # es else e # dict_store key v es)"

text \<open>\<open>min(self.cache.keys(), key=lambda k: self.cache[k][0])\<close>: the first key, in the
  order of iteration, whose time of insertion is minimal.\<close>

fun min_by_time :: "string \<times> 't \<times> string \<Rightarrow> ('t::linorder) cache \<Rightarrow> string \<times> 't \<times> string" where
  "min_by_time best [] = best"
| "min_by_time best (e # es) =
     min_by_time (if fst (snd e) < fst (snd best) then e else best) es"

definition oldest_key :: "('t::linorder) cache \<Rightarrow> string option" where
  "oldest_key cache = (case cache of [] \<Rightarrow> None | e # es \<Rightarrow> Some (fst (min_by_time e es)))"

text \<open>
  \<open>_cache_response\<close>, with the value of \<open>time.time()\<close> as the argument \<open>now\<close>. The
  minimum is taken only of a cache of at least \<open>MAX_CACHE_SIZE\<close> items, which is
  not empty.
\<close>

definition cache_response :: "('t::linorder) cache \<Rightarrow> string \<Rightarrow> string \<Rightarrow> 't \<Rightarrow> 't cache" where
  "cache_response cache cache_key resp now =
     (let cache' =
            (if length cache \<ge> MAX_CACHE_SIZE
             then (case oldest_key cache of
                     Some oldest \<Rightarrow> dict_delete oldest cache
                   | None \<Rightarrow> cache)
             else cache)
      in dict_store cache_key (now, resp) cache')"


text \<open>A sequence of insertions, each given by its key, its response and the time at
  which it is made, run from a given cache; and the item that an insertion stores.\<close>

fun run_inserts :: "('t::linorder) cache \<Rightarrow> (string \<times> string \<times> 't) list \<Rightarrow> 't cache" where
  "run_inserts cache [] = cache"
| "run_inserts cache ((key, resp, now) # ops) =
     run_inserts (cache_response cache key resp now) ops"

definition cache_item :: "string \<times> string \<times> 't \<Rightarrow> string \<times> 't \<times> string" where
  "cache_item op = (fst op, (snd (snd op), fst (snd op)))"


section \<open>Input normaliser (utils/validators.py)\<close>

text \<open>The characters that \<open>str.strip()\<close> and \<open>str.split()\<close> treat as whitespace, among
  the 8-bit characters.\<close>

definition is_space :: "char \<Rightarrow> bool" where
  "is_space c =
     (c \<in> set [CHR 0x09, CHR 0x0A, CHR 0x0B, CHR 0x0C, CHR 0x0D, CHR 0x1C, CHR 0x1D,
               CHR 0x1E, CHR 0x1F, CHR 0x20, CHR 0x85, CHR 0xA0])"

text \<open>\<open>text.strip()\<close>\<close>

definition strip :: "string \<Rightarrow> string" where
  "strip s = rev (dropWhile is_space (rev (dropWhile is_space s)))"

text \<open>\<open>text.split()\<close>: the maximal blocks of characters that are not whitespace.\<close>

function split_ws :: "string \<Rightarrow> string list" where
  "split_ws [] = []"
| "split_ws (c # cs) =
     (if is_space c then split_ws cs
      else (c # takeWhile (\<lambda>x. \<not> is_space x) cs)
           # split_ws (dropWhile (\<lambda>x. \<not> is_space x) cs))"
  by pat_completeness auto
termination
  by (relation "measure length") (auto simp: less_Suc_eq_le length_dropWhile_le)

text \<open>The characters removed by \<open>re.sub(r'[<>"\']', '', sanitized)\<close>.\<close>

definition is_unsafe :: "char \<Rightarrow> bool" where
  "is_unsafe c = (c \<in> set [CHR ''<'', CHR ''>'', CHR 0x22, CHR 0x27])"

definition sanitize_input :: "string \<Rightarrow> string" where
  "sanitize_input text =
     (if text = [] then []
      else filter (\<lambda>c. \<not> is_unsafe c) (join '' '' (split_ws (strip text))))"


text \<open>The first assignment of \<open>sanitize_input\<close>, \<open>' '.join(text.strip().split())\<close>, on its
  own, and the shape of the lists that \<open>split\<close> returns: words that are not empty
  and hold no whitespace.\<close>

definition normalise :: "string \<Rightarrow> string" where
  "normalise s = join '' '' (split_ws (strip s))"

definition good_words :: "string list \<Rightarrow> bool" where
  "good_words ws = (\<forall>w \<in> set ws. w \<noteq> [] \<and> (\<forall>c \<in> set w. \<not> is_space c))"


section \<open>Facts about the text primitives\<close>

lemma contains_iff_sublist: "contains s k \<longleftrightarrow> sublist k s"
  by (induction s) (auto simp: sublist_Cons_right)

lemma keyword_score_length: "keyword_score kws s = int (length (filter (contains s) kws))"
  unfolding keyword_score_def by (induction kws) auto

lemma keyword_score_card:
  assumes "distinct kws"
  shows "keyword_score kws s = int (card {k \<in> set kws. sublist k s})"
proof -
  have "distinct (filter (contains s) kws)"
    using assms by simp
  then have "length (filter (contains s) kws) = card (set (filter (contains s) kws))"
    by (rule distinct_card [symmetric])
  moreover have "set (filter (contains s) kws) = {k \<in> set kws. sublist k s}"
    by (auto simp: contains_iff_sublist)
  ultimately show ?thesis
    by (simp only: keyword_score_length)
qed

lemma keyword_score_bounds: "0 \<le> keyword_score kws s \<and> keyword_score kws s \<le> int (length kws)"
  by (simp add: keyword_score_length)


section \<open>Properties of the classifier\<close>

text \<open>
  C1. When the rule-based category of a text is \<open>refund\<close> and the lower-cased text
  contains one of the override keywords, the reconciliation step returns \<open>refund\<close>
  for every category string proposed by the AI layer, valid or not.
\<close>

theorem validate_classification_refund_override:
  assumes "classify_query_intent text = ''refund''"
    and "any_keyword override_keywords (lower text)"
  shows "validate_classification ai (classify_query_intent text) text = ''refund''"
  using assms by (simp add: validate_classification_def)

theorem validate_classification_refund_override_witness:
  "classify_query_intent ''I want a REFUND'' = ''refund''
   \<and> any_keyword override_keywords (lower ''I want a REFUND'')
   \<and> validate_classification ''faq'' (classify_query_intent ''I want a REFUND'')
        ''I want a REFUND'' = ''refund''"
proof -
  have h1: "classify_query_intent ''I want a REFUND'' = ''refund''"
    by code_simp
  have h2: "any_keyword override_keywords (lower ''I want a REFUND'')"
    by code_simp
  from validate_classification_refund_override [OF h1 h2, of "''faq''"] h1 h2
  show ?thesis by simp
qed

text \<open>
  C2. The claim that every tie for the maximal score yields \<open>other\<close> does not hold:
  the text below scores 1 in each of the three keyword sets and is classified \<open>faq\<close>.
\<close>

theorem classify_query_intent_tie_counterexample:
  "refund_score ''refund product bulk'' = 1
   \<and> faq_score ''refund product bulk'' = 1
   \<and> partnership_score ''refund product bulk'' = 1
   \<and> classify_query_intent ''refund product bulk'' = ''faq''"
  by code_simp

text \<open>
  C2, as amended. The classifier returns \<open>refund\<close> exactly when the refund score is
  strictly greater than both other scores, and \<open>partnership\<close> exactly when the
  partnership score is strictly greater than both others. In every remaining case,
  ties for the maximum included, it returns \<open>faq\<close> when the faq score is positive and
  \<open>other\<close> when the faq score is zero.
\<close>

theorem classify_query_intent_characterisation:
  "(classify_query_intent q = ''refund'' \<longleftrightarrow>
      faq_score q < refund_score q \<and> partnership_score q < refund_score q)
   \<and> (classify_query_intent q = ''partnership'' \<longleftrightarrow>
      faq_score q < partnership_score q \<and> refund_score q < partnership_score q)
   \<and> (classify_query_intent q = ''faq'' \<longleftrightarrow>
      \<not> (faq_score q < refund_score q \<and> partnership_score q < refund_score q)
      \<and> \<not> (faq_score q < partnership_score q \<and> refund_score q < partnership_score q)
      \<and> 0 < faq_score q)
   \<and> (classify_query_intent q = ''other'' \<longleftrightarrow>
      \<not> (faq_score q < refund_score q \<and> partnership_score q < refund_score q)
      \<and> \<not> (faq_score q < partnership_score q \<and> refund_score q < partnership_score q)
      \<and> faq_score q = 0)"
proof -
  have "0 \<le> faq_score q"
    by (simp add: faq_score_def keyword_score_bounds)
  then show ?thesis
    unfolding classify_query_intent_def by auto
qed

theorem classify_query_intent_characterisation_witness:
  "classify_query_intent ''bulk wholesale order'' = ''partnership''
   \<and> classify_query_intent ''hello there'' = ''other''"
proof -
  have p: "faq_score ''bulk wholesale order'' < partnership_score ''bulk wholesale order''
           \<and> refund_score ''bulk wholesale order'' < partnership_score ''bulk wholesale order''"
    by code_simp
  have o: "refund_score ''hello there'' = 0 \<and> faq_score ''hello there'' = 0
           \<and> partnership_score ''hello there'' = 0"
    by code_simp
  from p classify_query_intent_characterisation [of "''bulk wholesale order''"]
  have "classify_query_intent ''bulk wholesale order'' = ''partnership''"
    by blast
  moreover from o classify_query_intent_characterisation [of "''hello there''"]
  have "classify_query_intent ''hello there'' = ''other''"
    by simp
  ultimately show ?thesis by simp
qed

text \<open>
  C3. The score is not the number of occurrences: in the text below the keyword
  \<open>refund\<close> occurs twice and no other refund keyword occurs, yet the score is 1.
\<close>

theorem refund_score_occurrences_counterexample:
  "refund_score ''refund refund'' = 1
   \<and> occurrence_score refund_keywords (lower ''refund refund'') = 2"
  by code_simp

text \<open>
  C3, as amended. For each of the three keyword sets the score is the number of
  keywords of the set that occur at least once in the lower-cased text: a keyword
  adds 1 when present, however often it recurs.
\<close>

theorem keyword_scores_count_present_keywords:
  "refund_score q = int (card {k \<in> set refund_keywords. sublist k (lower q)})
   \<and> faq_score q = int (card {k \<in> set faq_keywords. sublist k (lower q)})
   \<and> partnership_score q = int (card {k \<in> set partnership_keywords. sublist k (lower q)})"
proof -
  have "distinct refund_keywords"
    by (simp add: refund_keywords_def)
  moreover have "distinct faq_keywords"
    by (simp add: faq_keywords_def)
  moreover have "distinct partnership_keywords"
    by (simp add: partnership_keywords_def)
  ultimately show ?thesis
    by (simp only: refund_score_def faq_score_def partnership_score_def keyword_score_card)
qed

section \<open>Properties of the entity extractor\<close>

lemma match_here_Some:
  assumes "match_here lit n s = Some m"
  shows "\<exists>ds. m = lit @ ds \<and> length ds = n \<and> list_all is_digit ds \<and> prefix m s"
proof -
  from assms have p: "prefix lit s" and l: "n \<le> length (drop (length lit) s)"
    and d: "list_all is_digit (take n (drop (length lit) s))"
    and m: "m = take (length lit + n) s"
    by (auto simp: match_here_def split: if_splits)
  from p obtain r where s: "s = lit @ r"
    by (auto simp: prefix_def)
  with l have "n \<le> length r" by simp
  with s m d have "m = lit @ take n r" "length (take n r) = n" "list_all is_digit (take n r)"
    by simp_all
  moreover have "prefix m s"
    using m by (simp add: take_is_prefix)
  ultimately show ?thesis by blast
qed

lemma match_here_complete:
  assumes "length ds = n" and "list_all is_digit ds"
  shows "match_here lit n (lit @ ds @ ss) = Some (lit @ ds)"
  using assms by (simp add: match_here_def)

lemma re_search_Some:
  assumes "re_search lit n s = Some m"
  shows "\<exists>ds. m = lit @ ds \<and> length ds = n \<and> list_all is_digit ds \<and> sublist m s"
  using assms
proof (induction s)
  case Nil
  then show ?case
    by (auto dest!: match_here_Some)
next
  case (Cons c cs)
  show ?case
  proof (cases "match_here lit n (c # cs)")
    case None
    with Cons.prems have "re_search lit n cs = Some m" by simp
    from Cons.IH [OF this] show ?thesis
      by (auto simp: sublist_Cons_right)
  next
    case (Some m')
    with Cons.prems have "match_here lit n (c # cs) = Some m" by simp
    from match_here_Some [OF this] show ?thesis
      by auto
  qed
qed

lemma re_search_append:
  assumes "match_here lit n s \<noteq> None"
  shows "re_search lit n (ps @ s) \<noteq> None"
proof (induction ps)
  case Nil
  from assms show ?case
    by (cases s) auto
next
  case (Cons p ps)
  then show ?case
    by (auto split: option.splits)
qed

lemma re_search_None:
  assumes "re_search lit n s = None" and "length ds = n" and "list_all is_digit ds"
  shows "\<not> sublist (lit @ ds) s"
proof
  assume "sublist (lit @ ds) s"
  then obtain ps ss where "s = ps @ (lit @ ds) @ ss"
    by (auto simp: sublist_def)
  then have s: "s = ps @ (lit @ ds @ ss)" by simp
  have "match_here lit n (lit @ ds @ ss) \<noteq> None"
    using match_here_complete [OF assms(2,3)] by simp
  from re_search_append [OF this, of ps] s assms(1) show False
    by simp
qed

lemma re_search_cases:
  "(case re_search lit n s of
      None \<Rightarrow> \<not> (\<exists>ds. length ds = n \<and> list_all is_digit ds \<and> sublist (lit @ ds) s)
    | Some m \<Rightarrow> \<exists>ds. m = lit @ ds \<and> length ds = n \<and> list_all is_digit ds \<and> sublist m s)"
proof (cases "re_search lit n s")
  case None
  then show ?thesis
    using re_search_None [where lit = lit and n = n and s = s] by auto
next
  case (Some m)
  then show ?thesis
    using re_search_Some [where lit = lit and n = n and s = s and m = m] by simp
qed

text \<open>
  C4. Identifiers with too many digits are not rejected: the extractor returns the
  well-formed prefix of \<open>INV12345\<close> and of \<open>CUST12345\<close>.
\<close>

theorem extract_transaction_info_truncation_counterexample:
  "extract_transaction_info ''INV12345'' = \<lparr> invoice_no = Some ''INV1234'', customer_id = None \<rparr>
   \<and> extract_transaction_info ''CUST12345'' = \<lparr> invoice_no = None, customer_id = Some ''CUST123'' \<rparr>"
  by code_simp

text \<open>
  C4, as amended. The invoice field is present exactly when the upper-cased text
  contains \<open>INV\<close> followed by 4 digits as a contiguous block, and the value returned
  is then \<open>INV\<close> followed by exactly 4 digits, taken from the upper-cased text; the
  customer field likewise for \<open>CUST\<close> followed by 3 digits. Too few digits give an
  absent field; what follows a well-formed block is not inspected.
\<close>

theorem extract_transaction_info_substring_match:
  "(case invoice_no (extract_transaction_info t) of
      None \<Rightarrow> \<not> (\<exists>ds. length ds = 4 \<and> list_all is_digit ds \<and> sublist (''INV'' @ ds) (upper t))
    | Some m \<Rightarrow> \<exists>ds. m = ''INV'' @ ds \<and> length ds = 4 \<and> list_all is_digit ds
                  \<and> sublist m (upper t))
   \<and> (case customer_id (extract_transaction_info t) of
      None \<Rightarrow> \<not> (\<exists>ds. length ds = 3 \<and> list_all is_digit ds \<and> sublist (''CUST'' @ ds) (upper t))
    | Some m \<Rightarrow> \<exists>ds. m = ''CUST'' @ ds \<and> length ds = 3 \<and> list_all is_digit ds
                  \<and> sublist m (upper t))"
  using re_search_cases [where lit = "''INV''" and n = 4 and s = "upper t"]
    re_search_cases [where lit = "''CUST''" and n = 3 and s = "upper t"]
  by (simp add: extract_transaction_info_def Let_def)

theorem extract_transaction_info_substring_match_witness:
  "invoice_no (extract_transaction_info ''refund for inv1001, cust12'') = Some ''INV1001''
   \<and> customer_id (extract_transaction_info ''refund for inv1001, cust12'') = None
   \<and> \<not> sublist ''CUST123'' (upper ''refund for inv1001, cust12'')"
proof -
  have i: "invoice_no (extract_transaction_info ''refund for inv1001, cust12'') = Some ''INV1001''"
    by code_simp
  have c: "customer_id (extract_transaction_info ''refund for inv1001, cust12'') = None"
    by code_simp
  have "length ''123'' = 3 \<and> list_all is_digit ''123''"
    by (simp add: is_digit_def)
  with c extract_transaction_info_substring_match [of "''refund for inv1001, cust12''"]
  have "\<not> sublist (''CUST'' @ ''123'') (upper ''refund for inv1001, cust12'')"
    by simp
  with i c show ?thesis by simp
qed

section \<open>Properties of the router\<close>

text \<open>
  C5. The category read by the router is that of the triage result, \<open>other\<close> when
  missing; the confidence is the number stored, or 0.8, 0.6, 0.4 for the labels
  \<open>high\<close>, \<open>medium\<close>, \<open>low\<close>, and 0.5 for any other label or when missing; each
  strength is the number of indicator words of its list that occur in the
  lower-cased text. On these the router follows the five-step order, first match
  first: category \<open>refund\<close> with confidence above 0.6 goes to \<open>refund\<close>; else
  category \<open>faq\<close> with confidence above 0.6 goes to \<open>faq\<close>; else a larger, positive
  refund strength gives \<open>refund\<close> at confidence 0.7; else a larger, positive faq
  strength gives \<open>faq\<close> at 0.7; else the target is \<open>triage\<close> at the original
  confidence. For category \<open>other\<close>, confidence 0.5 and the text \<open>refund return\<close> the
  strengths are 2 and 0 and the result is \<open>refund\<close> at 0.7.
\<close>

theorem determine_routing_decision_order:
  "routing_category tr = (case result_category tr of None \<Rightarrow> ''other'' | Some c \<Rightarrow> c)
   \<and> routing_confidence tr =
       (case result_confidence tr of
          None \<Rightarrow> 0.5
        | Some (Number x) \<Rightarrow> x
        | Some (Label l) \<Rightarrow>
            if l = ''high'' then 0.8 else if l = ''medium'' then 0.6
            else if l = ''low'' then 0.4 else 0.5)
   \<and> refund_strength text =
       int (card {k \<in> {''refund'', ''return'', ''money back'', ''inv'', ''invoice''}.
                  sublist k (lower text)})
   \<and> faq_strength text =
       int (card {k \<in> {''how'', ''what'', ''policy'', ''specification'', ''dimension''}.
                  sublist k (lower text)})
   \<and> (routing_category tr = ''refund'' \<and> routing_confidence tr > 0.6 \<longrightarrow>
      determine_routing tr text
        = \<lparr> route_to = ''refund'', route_confidence = routing_confidence tr \<rparr>)
   \<and> (\<not> (routing_category tr = ''refund'' \<and> routing_confidence tr > 0.6)
      \<and> routing_category tr = ''faq'' \<and> routing_confidence tr > 0.6 \<longrightarrow>
      determine_routing tr text
        = \<lparr> route_to = ''faq'', route_confidence = routing_confidence tr \<rparr>)
   \<and> (\<not> (routing_category tr = ''refund'' \<and> routing_confidence tr > 0.6)
      \<and> \<not> (routing_category tr = ''faq'' \<and> routing_confidence tr > 0.6)
      \<and> refund_strength text > faq_strength text \<and> refund_strength text > 0 \<longrightarrow>
      determine_routing tr text = \<lparr> route_to = ''refund'', route_confidence = 0.7 \<rparr>)
   \<and> (\<not> (routing_category tr = ''refund'' \<and> routing_confidence tr > 0.6)
      \<and> \<not> (routing_category tr = ''faq'' \<and> routing_confidence tr > 0.6)
      \<and> \<not> (refund_strength text > faq_strength text \<and> refund_strength text > 0)
      \<and> faq_strength text > refund_strength text \<and> faq_strength text > 0 \<longrightarrow>
      determine_routing tr text = \<lparr> route_to = ''faq'', route_confidence = 0.7 \<rparr>)
   \<and> (\<not> (routing_category tr = ''refund'' \<and> routing_confidence tr > 0.6)
      \<and> \<not> (routing_category tr = ''faq'' \<and> routing_confidence tr > 0.6)
      \<and> \<not> (refund_strength text > faq_strength text \<and> refund_strength text > 0)
      \<and> \<not> (faq_strength text > refund_strength text \<and> faq_strength text > 0) \<longrightarrow>
      determine_routing tr text
        = \<lparr> route_to = ''triage'', route_confidence = routing_confidence tr \<rparr>)
   \<and> refund_strength ''refund return'' = 2
   \<and> faq_strength ''refund return'' = 0
   \<and> determine_routing \<lparr> result_category = Some ''other'', result_confidence = Some (Number 0.5) \<rparr>
        ''refund return''
      = \<lparr> route_to = ''refund'', route_confidence = 0.7 \<rparr>"
proof -
  have cat: "routing_category tr = (case result_category tr of None \<Rightarrow> ''other'' | Some c \<Rightarrow> c)"
    by (simp add: routing_category_def)
  have conf: "routing_confidence tr =
       (case result_confidence tr of
          None \<Rightarrow> 0.5
        | Some (Number x) \<Rightarrow> x
        | Some (Label l) \<Rightarrow>
            if l = ''high'' then 0.8 else if l = ''medium'' then 0.6
            else if l = ''low'' then 0.4 else 0.5)"
    by (simp add: routing_confidence_def confidence_map_def
        split: option.splits conf_value.splits)
  have "distinct refund_indicators"
    by (simp add: refund_indicators_def)
  then have "refund_strength text
             = int (card {k \<in> set refund_indicators. sublist k (lower text)})"
    unfolding refund_strength_def by (rule keyword_score_card)
  moreover have "set refund_indicators
                 = {''refund'', ''return'', ''money back'', ''inv'', ''invoice''}"
    by (simp add: refund_indicators_def)
  ultimately have rs: "refund_strength text =
       int (card {k \<in> {''refund'', ''return'', ''money back'', ''inv'', ''invoice''}.
                  sublist k (lower text)})"
    by simp
  have "distinct faq_indicators"
    by (simp add: faq_indicators_def)
  then have "faq_strength text
             = int (card {k \<in> set faq_indicators. sublist k (lower text)})"
    unfolding faq_strength_def by (rule keyword_score_card)
  moreover have "set faq_indicators
                 = {''how'', ''what'', ''policy'', ''specification'', ''dimension''}"
    by (simp add: faq_indicators_def)
  ultimately have fs: "faq_strength text =
       int (card {k \<in> {''how'', ''what'', ''policy'', ''specification'', ''dimension''}.
                  sublist k (lower text)})"
    by simp
  have steps:
    "(routing_category tr = ''refund'' \<and> routing_confidence tr > 0.6 \<longrightarrow>
        determine_routing tr text
          = \<lparr> route_to = ''refund'', route_confidence = routing_confidence tr \<rparr>)
     \<and> (\<not> (routing_category tr = ''refund'' \<and> routing_confidence tr > 0.6)
        \<and> routing_category tr = ''faq'' \<and> routing_confidence tr > 0.6 \<longrightarrow>
        determine_routing tr text
          = \<lparr> route_to = ''faq'', route_confidence = routing_confidence tr \<rparr>)
     \<and> (\<not> (routing_category tr = ''refund'' \<and> routing_confidence tr > 0.6)
        \<and> \<not> (routing_category tr = ''faq'' \<and> routing_confidence tr > 0.6)
        \<and> refund_strength text > faq_strength text \<and> refund_strength text > 0 \<longrightarrow>
        determine_routing tr text = \<lparr> route_to = ''refund'', route_confidence = 0.7 \<rparr>)
     \<and> (\<not> (routing_category tr = ''refund'' \<and> routing_confidence tr > 0.6)
        \<and> \<not> (routing_category tr = ''faq'' \<and> routing_confidence tr > 0.6)
        \<and> \<not> (refund_strength text > faq_strength text \<and> refund_strength text > 0)
        \<and> faq_strength text > refund_strength text \<and> faq_strength text > 0 \<longrightarrow>
        determine_routing tr text = \<lparr> route_to = ''faq'', route_confidence = 0.7 \<rparr>)
     \<and> (\<not> (routing_category tr = ''refund'' \<and> routing_confidence tr > 0.6)
        \<and> \<not> (routing_category tr = ''faq'' \<and> routing_confidence tr > 0.6)
        \<and> \<not> (refund_strength text > faq_strength text \<and> refund_strength text > 0)
        \<and> \<not> (faq_strength text > refund_strength text \<and> faq_strength text > 0) \<longrightarrow>
        determine_routing tr text
          = \<lparr> route_to = ''triage'', route_confidence = routing_confidence tr \<rparr>)"
    by (simp add: determine_routing_def Let_def)
  have r: "refund_strength ''refund return'' = 2"
    by code_simp
  have f: "faq_strength ''refund return'' = 0"
    by code_simp
  have ex: "determine_routing \<lparr> result_category = Some ''other'', result_confidence = Some (Number 0.5) \<rparr>
          ''refund return''
        = \<lparr> route_to = ''refund'', route_confidence = 0.7 \<rparr>"
    by (simp add: determine_routing_def routing_category_def routing_confidence_def r f)
  from cat conf rs fs steps r f ex show ?thesis
    by (intro conjI) blast+
qed

theorem determine_routing_decision_order_witness:
  "determine_routing \<lparr> result_category = Some ''refund'', result_confidence = Some (Label ''high'') \<rparr>
     ''hello'' = \<lparr> route_to = ''refund'', route_confidence = 0.8 \<rparr>
   \<and> determine_routing \<lparr> result_category = Some ''faq'', result_confidence = Some (Number 0.9) \<rparr>
     ''I want a refund'' = \<lparr> route_to = ''faq'', route_confidence = 0.9 \<rparr>
   \<and> determine_routing \<lparr> result_category = Some ''faq'', result_confidence = Some (Label ''medium'') \<rparr>
     ''my invoice'' = \<lparr> route_to = ''refund'', route_confidence = 0.7 \<rparr>
   \<and> determine_routing \<lparr> result_category = Some ''other'', result_confidence = Some (Label ''medium'') \<rparr>
     ''What is the POLICY'' = \<lparr> route_to = ''faq'', route_confidence = 0.7 \<rparr>
   \<and> determine_routing \<lparr> result_category = None, result_confidence = Some (Label ''low'') \<rparr>
     ''hello'' = \<lparr> route_to = ''triage'', route_confidence = 0.4 \<rparr>"
proof -
  have s1: "refund_strength ''hello'' = 0 \<and> faq_strength ''hello'' = 0"
    by code_simp
  have s2: "refund_strength ''my invoice'' = 2 \<and> faq_strength ''my invoice'' = 0"
    by code_simp
  have s4: "refund_strength ''I want a refund'' = 1 \<and> faq_strength ''I want a refund'' = 0"
    by code_simp
  have s3: "refund_strength ''What is the POLICY'' = 0 \<and> faq_strength ''What is the POLICY'' = 2"
    by code_simp
  have 1: "determine_routing
             \<lparr> result_category = Some ''refund'', result_confidence = Some (Label ''high'') \<rparr>
             ''hello'' = \<lparr> route_to = ''refund'', route_confidence = 0.8 \<rparr>"
    using determine_routing_decision_order
      [of "\<lparr> result_category = Some ''refund'', result_confidence = Some (Label ''high'') \<rparr>"
          "''hello''",
       unfolded routing_category_def routing_confidence_def confidence_map_def]
    by (simp add: s1)
  have 2: "determine_routing
             \<lparr> result_category = Some ''faq'', result_confidence = Some (Number 0.9) \<rparr>
             ''I want a refund'' = \<lparr> route_to = ''faq'', route_confidence = 0.9 \<rparr>"
    using determine_routing_decision_order
      [of "\<lparr> result_category = Some ''faq'', result_confidence = Some (Number 0.9) \<rparr>"
          "''I want a refund''",
       unfolded routing_category_def routing_confidence_def confidence_map_def]
    by (simp add: s4)
  have 3: "determine_routing
             \<lparr> result_category = Some ''faq'', result_confidence = Some (Label ''medium'') \<rparr>
             ''my invoice'' = \<lparr> route_to = ''refund'', route_confidence = 0.7 \<rparr>"
    using determine_routing_decision_order
      [of "\<lparr> result_category = Some ''faq'', result_confidence = Some (Label ''medium'') \<rparr>"
          "''my invoice''",
       unfolded routing_category_def routing_confidence_def confidence_map_def]
    by (simp add: s2)
  have 4: "determine_routing
             \<lparr> result_category = Some ''other'', result_confidence = Some (Label ''medium'') \<rparr>
             ''What is the POLICY'' = \<lparr> route_to = ''faq'', route_confidence = 0.7 \<rparr>"
    using determine_routing_decision_order
      [of "\<lparr> result_category = Some ''other'', result_confidence = Some (Label ''medium'') \<rparr>"
          "''What is the POLICY''",
       unfolded routing_category_def routing_confidence_def confidence_map_def]
    by (simp add: s3)
  have 5: "determine_routing
             \<lparr> result_category = None, result_confidence = Some (Label ''low'') \<rparr>
             ''hello'' = \<lparr> route_to = ''triage'', route_confidence = 0.4 \<rparr>"
    using determine_routing_decision_order
      [of "\<lparr> result_category = None, result_confidence = Some (Label ''low'') \<rparr>" "''hello''",
       unfolded routing_category_def routing_confidence_def confidence_map_def]
    by (simp add: s1)
  from 1 2 3 4 5 show ?thesis by blast
qed


section \<open>Properties of the resolution heuristic\<close>

text \<open>
  C6. The length-and-indicator test returns before the uncertainty phrases are
  looked at. The response below contains \<open>contact support\<close>, is 117 characters long
  and names three indicator terms (\<open>policy\<close>, \<open>days\<close>, \<open>return\<close>), and it is
  assessed as resolved.
\<close>

theorem assess_resolution_quality_resolved_despite_uncertainty:
  "any_keyword uncertainty_phrases
     (lower ''Our return policy lasts 30 days. For questions about a specific order please contact support and we will gladly help.'')
   \<and> length ''Our return policy lasts 30 days. For questions about a specific order please contact support and we will gladly help.'' = 117
   \<and> indicator_count ''Our return policy lasts 30 days. For questions about a specific order please contact support and we will gladly help.'' = 3
   \<and> assess_resolution_quality ''what is the return policy'' ([] :: unit list)
     ''Our return policy lasts 30 days. For questions about a specific order please contact support and we will gladly help.''"
  by code_simp

text \<open>
  In general, a response that contains an uncertainty phrase is assessed as
  unresolved exactly when it is not both longer than 100 characters and in
  possession of at least 2 indicator terms; the FAQ matches play no part for such a
  response.
\<close>

lemma assess_resolution_quality_uncertain:
  assumes "any_keyword uncertainty_phrases (lower ai_response)"
  shows "assess_resolution_quality user_input faq_results ai_response
           \<longleftrightarrow> length ai_response > 100 \<and> indicator_count ai_response \<ge> 2"
  using assms by (simp add: assess_resolution_quality_def)

lemma assess_resolution_quality_uncertain_short:
  "any_keyword uncertainty_phrases (lower ''I'm not sure about the warranty policy.'')
   \<and> \<not> assess_resolution_quality ''warranty?'' [1 :: nat]
         ''I'm not sure about the warranty policy.''"
proof -
  have u: "any_keyword uncertainty_phrases (lower ''I'm not sure about the warranty policy.'')"
    by code_simp
  have "\<not> length ''I'm not sure about the warranty policy.'' > 100"
    by simp
  with u assess_resolution_quality_uncertain [OF u, of "''warranty?''" "[1 :: nat]"]
  show ?thesis by simp
qed


section \<open>Properties of the handler boundaries\<close>

text \<open>
  C7. When the \<open>try\<close> block raises, each of the three boundaries returns its fixed
  apology with \<open>resolved\<close> false, and nothing is raised further. The refund and the
  application boundary set \<open>needs_followup\<close> to true. The triage boundary does not:
  its dictionary has no key \<open>needs_followup\<close>, and a turn answered from it is
  reported with \<open>needs_followup\<close> false.
\<close>

theorem triage_boundary_omits_needs_followup:
  "triage_process_boundary (Inl e) = triage_error_response
   \<and> map_of (triage_process_boundary (Inl e)) ''resolved'' = Some (PBool False)
   \<and> map_of (triage_process_boundary (Inl e)) ''needs_followup'' = None
   \<and> map_of (turn_message c k (triage_process_boundary (Inl e))) ''metadata''
       = Some (PDict [(''category'', c), (''confidence'', k),
                      (''resolved'', PBool False), (''needs_followup'', PBool False)])
   \<and> map_of (refund_process_boundary (Inl e)) ''resolved'' = Some (PBool False)
   \<and> map_of (refund_process_boundary (Inl e)) ''needs_followup'' = Some (PBool True)
   \<and> map_of (route_and_process_boundary (Inl e)) ''metadata''
       = Some (PDict [(''category'', PStr ''error''),
                      (''resolved'', PBool False), (''needs_followup'', PBool True)])"
  by (simp add: triage_process_boundary_def refund_process_boundary_def
      route_and_process_boundary_def triage_error_response_def refund_error_response_def
      app_error_response_def turn_message_def dict_get_def to_dict_def AgentResponse_def)


section \<open>Properties of the refund handler\<close>

text \<open>
  C8. The identifiers of the current message and of the session context are not
  combined field by field. With the invoice identifier in the current message and
  the customer identifier in the context, both identifiers are at hand, yet the
  handler does not go on to the lookup: it returns the request for the customer
  identifier, with \<open>needs_more_info\<close> true.
\<close>

theorem refund_process_context_customer_id_counterexample:
  "refund_process ''refund for INV1001''
     (Some \<lparr> extracted_info =
         Some \<lparr> invoice_no = None, customer_id = Some ''CUST123'' \<rparr> \<rparr>)
   = Respond (request_transaction_info \<lparr> invoice_no = Some ''INV1001'', customer_id = None \<rparr>)
   \<and> map_of (request_transaction_info \<lparr> invoice_no = Some ''INV1001'', customer_id = None \<rparr>)
        ''needs_more_info'' = Some (PBool True)
   \<and> map_of (request_transaction_info \<lparr> invoice_no = Some ''INV1001'', customer_id = None \<rparr>)
        ''metadata''
      = Some (PDict [(''missing_fields'', PList [PStr ''Customer ID (format: CUST###)''])])"
proof -
  have e: "extract_transaction_info ''refund for INV1001''
           = \<lparr> invoice_no = Some ''INV1001'', customer_id = None \<rparr>"
    by code_simp
  show ?thesis
    by (simp add: refund_process_def e truthy_def request_transaction_info_def
        to_dict_def AgentResponse_def)
qed

text \<open>
  C8, as amended. An identifier is at hand when it is a string that is not empty.
  The context is read only when the current message has no invoice identifier, and
  then both identifiers are taken from it. The handler goes on to the lookup when
  both identifiers are in the current message, whatever the context holds, and when
  the current message has no invoice identifier and the context holds both. In
  every other case it returns the request, unresolved and with \<open>needs_more_info\<close>
  true, that lists the identifiers missing from the current message.
\<close>

theorem refund_process_identifier_sources:
  "(truthy v \<longleftrightarrow> (\<exists>s. v = Some s \<and> s \<noteq> []))
   \<and> (let current = extract_transaction_info user_input;
           carried = (case ctx of None \<Rightarrow> None | Some cx \<Rightarrow> extracted_info cx);
           request = request_transaction_info current
       in (invoice_no current = Some i \<and> i \<noteq> [] \<and> customer_id current = Some c \<and> c \<noteq> [] \<longrightarrow>
             refund_process user_input ctx = VerifyTransaction i c)
        \<and> (truthy (invoice_no current) \<and> \<not> truthy (customer_id current) \<longrightarrow>
             refund_process user_input ctx = Respond request)
        \<and> (\<not> truthy (invoice_no current) \<and> carried = Some info
             \<and> invoice_no info = Some i \<and> i \<noteq> [] \<and> customer_id info = Some c \<and> c \<noteq> [] \<longrightarrow>
             refund_process user_input ctx = VerifyTransaction i c)
        \<and> (\<not> truthy (invoice_no current)
             \<and> (case carried of
                   None \<Rightarrow> True
                 | Some info' \<Rightarrow> \<not> (truthy (invoice_no info') \<and> truthy (customer_id info'))) \<longrightarrow>
             refund_process user_input ctx = Respond request)
        \<and> map_of request ''resolved'' = Some (PBool False)
        \<and> map_of request ''needs_more_info'' = Some (PBool True)
        \<and> map_of request ''metadata''
            = Some (PDict [(''missing_fields'', PList (map PStr
                 ((if truthy (invoice_no current) then []
                   else [''Invoice Number (format: INV####)''])
                  @ (if truthy (customer_id current) then []
                     else [''Customer ID (format: CUST###)'']))))]))"
proof -
  have t: "truthy v \<longleftrightarrow> (\<exists>s. v = Some s \<and> s \<noteq> [])"
    by (cases v) (simp_all add: truthy_def)
  obtain ci cc where cur: "extract_transaction_info user_input
                           = \<lparr> invoice_no = ci, customer_id = cc \<rparr>"
    by (cases "extract_transaction_info user_input") auto
  have steps: "(ci = Some i \<and> i \<noteq> [] \<and> cc = Some c \<and> c \<noteq> [] \<longrightarrow>
          refund_process user_input ctx = VerifyTransaction i c)
     \<and> (truthy ci \<and> \<not> truthy cc \<longrightarrow>
          refund_process user_input ctx
            = Respond (request_transaction_info \<lparr> invoice_no = ci, customer_id = cc \<rparr>))
     \<and> (\<not> truthy ci
          \<and> (case ctx of None \<Rightarrow> None | Some cx \<Rightarrow> extracted_info cx) = Some info
          \<and> invoice_no info = Some i \<and> i \<noteq> [] \<and> customer_id info = Some c \<and> c \<noteq> [] \<longrightarrow>
          refund_process user_input ctx = VerifyTransaction i c)
     \<and> (\<not> truthy ci
          \<and> (case (case ctx of None \<Rightarrow> None | Some cx \<Rightarrow> extracted_info cx) of
                None \<Rightarrow> True
              | Some info' \<Rightarrow> \<not> (truthy (invoice_no info') \<and> truthy (customer_id info'))) \<longrightarrow>
          refund_process user_input ctx
            = Respond (request_transaction_info \<lparr> invoice_no = ci, customer_id = cc \<rparr>))"
    by (auto simp: refund_process_def cur truthy_def split: option.splits)
  have req: "map_of (request_transaction_info \<lparr> invoice_no = ci, customer_id = cc \<rparr>)
               ''resolved'' = Some (PBool False)
     \<and> map_of (request_transaction_info \<lparr> invoice_no = ci, customer_id = cc \<rparr>)
               ''needs_more_info'' = Some (PBool True)
     \<and> map_of (request_transaction_info \<lparr> invoice_no = ci, customer_id = cc \<rparr>)
               ''metadata''
         = Some (PDict [(''missing_fields'', PList (map PStr
              ((if truthy ci then [] else [''Invoice Number (format: INV####)''])
               @ (if truthy cc then [] else [''Customer ID (format: CUST###)'']))))])"
    by (simp add: request_transaction_info_def to_dict_def AgentResponse_def Let_def)
  from t steps req show ?thesis
    by (simp only: Let_def cur transaction_info.simps) blast
qed

theorem refund_process_identifier_sources_witness:
  "refund_process ''refund for inv1001, cust123'' None
     = VerifyTransaction ''INV1001'' ''CUST123''
   \<and> refund_process ''I want a refund''
       (Some \<lparr> extracted_info =
           Some \<lparr> invoice_no = Some ''INV2002'', customer_id = Some ''CUST456'' \<rparr> \<rparr>)
     = VerifyTransaction ''INV2002'' ''CUST456''
   \<and> refund_process ''I want a refund'' None
     = Respond (request_transaction_info \<lparr> invoice_no = None, customer_id = None \<rparr>)"
proof -
  have e1: "extract_transaction_info ''refund for inv1001, cust123''
            = \<lparr> invoice_no = Some ''INV1001'', customer_id = Some ''CUST123'' \<rparr>"
    by code_simp
  have e2: "extract_transaction_info ''I want a refund''
            = \<lparr> invoice_no = None, customer_id = None \<rparr>"
    by code_simp
  have 1: "refund_process ''refund for inv1001, cust123'' None
             = VerifyTransaction ''INV1001'' ''CUST123''"
    using refund_process_identifier_sources
      [where user_input = "''refund for inv1001, cust123''" and ctx = None
         and i = "''INV1001''" and c = "''CUST123''"]
    by (simp add: e1 Let_def)
  have 2: "refund_process ''I want a refund''
             (Some \<lparr> extracted_info =
                 Some \<lparr> invoice_no = Some ''INV2002'', customer_id = Some ''CUST456'' \<rparr> \<rparr>)
           = VerifyTransaction ''INV2002'' ''CUST456''"
    using refund_process_identifier_sources
      [where user_input = "''I want a refund''"
         and ctx = "Some \<lparr> extracted_info =
                 Some \<lparr> invoice_no = Some ''INV2002'', customer_id = Some ''CUST456'' \<rparr> \<rparr>"
         and info = "\<lparr> invoice_no = Some ''INV2002'', customer_id = Some ''CUST456'' \<rparr>"
         and i = "''INV2002''" and c = "''CUST456''"]
    by (simp add: e2 Let_def truthy_def)
  have 3: "refund_process ''I want a refund'' None
             = Respond (request_transaction_info \<lparr> invoice_no = None, customer_id = None \<rparr>)"
    using refund_process_identifier_sources
      [where user_input = "''I want a refund''" and ctx = None]
    by (simp add: e2 Let_def truthy_def)
  from 1 2 3 show ?thesis by blast
qed


section \<open>Properties of the response cache\<close>

lemma min_by_time_mem: "min_by_time b es \<in> set (b # es)"
  by (induction es arbitrary: b) auto

lemma min_by_time_le: "\<forall>e \<in> set (b # es). fst (snd (min_by_time b es)) \<le> fst (snd e)"
proof (induction es arbitrary: b)
  case Nil
  then show ?case by simp
next
  case (Cons a es)
  let ?b' = "if fst (snd a) < fst (snd b) then a else b"
  let ?m = "min_by_time ?b' es"
  from Cons.IH [of ?b'] have 1: "fst (snd ?m) \<le> fst (snd ?b')"
    and 2: "\<forall>e \<in> set es. fst (snd ?m) \<le> fst (snd e)"
    by simp_all
  have "fst (snd ?b') \<le> fst (snd a)" and "fst (snd ?b') \<le> fst (snd b)"
    by auto
  with 1 have "fst (snd ?m) \<le> fst (snd a)" and "fst (snd ?m) \<le> fst (snd b)"
    by (blast intro: order_trans)+
  with 2 show ?case by simp
qed

lemma dict_store_new: "key \<notin> fst ` set d \<Longrightarrow> dict_store key v d = d @ [(key, v)]"
  by (induction d) auto

lemma dict_delete_distinct:
  assumes "distinct (map fst d)" and "old \<in> set d"
  shows "dict_delete (fst old) d = filter (\<lambda>e. e \<noteq> old) d"
proof -
  have "\<And>e. e \<in> set d \<Longrightarrow> (fst e \<noteq> fst old) = (e \<noteq> old)"
    using assms by (auto simp: distinct_map inj_on_def)
  then show ?thesis
    unfolding dict_delete_def by (auto intro: filter_cong)
qed

text \<open>
  C9. In a cache that holds at least \<open>MAX_CACHE_SIZE\<close> items with pairwise different
  times of insertion, storing a response under a new key evicts exactly one item,
  the one whose time of insertion is smaller than that of every other item, which
  is the item inserted first when the times grow with each insertion. All other
  items are kept, in their order, whether or not they were read again, and the new
  item is added at the end.
\<close>

theorem cache_response_evicts_oldest:
  fixes cache :: "('t::linorder) cache"
  assumes keys: "distinct (map fst cache)"
    and times: "distinct (map (\<lambda>e. fst (snd e)) cache)"
    and full: "MAX_CACHE_SIZE \<le> length cache"
    and new: "key \<notin> fst ` set cache"
  shows "\<exists>old \<in> set cache.
           (\<forall>e \<in> set cache. e \<noteq> old \<longrightarrow> fst (snd old) < fst (snd e))
           \<and> cache_response cache key resp now
               = filter (\<lambda>e. e \<noteq> old) cache @ [(key, (now, resp))]"
proof -
  from full obtain c cs where cache: "cache = c # cs"
    by (cases cache) (auto simp: MAX_CACHE_SIZE_def)
  define old where "old = min_by_time c cs"
  have mem: "old \<in> set cache"
    unfolding old_def cache by (rule min_by_time_mem)
  have le: "\<And>e. e \<in> set cache \<Longrightarrow> fst (snd old) \<le> fst (snd e)"
    using min_by_time_le [of c cs] unfolding old_def cache by blast
  have less: "\<forall>e \<in> set cache. e \<noteq> old \<longrightarrow> fst (snd old) < fst (snd e)"
  proof (intro ballI impI)
    fix e assume e: "e \<in> set cache" "e \<noteq> old"
    with times mem have "fst (snd e) \<noteq> fst (snd old)"
      by (auto simp: distinct_map inj_on_def)
    with le [OF e(1)] show "fst (snd old) < fst (snd e)" by simp
  qed
  have key: "oldest_key cache = Some (fst old)"
    by (simp add: oldest_key_def cache old_def)
  have del: "dict_delete (fst old) cache = filter (\<lambda>e. e \<noteq> old) cache"
    by (rule dict_delete_distinct [OF keys mem])
  have "key \<notin> fst ` set (filter (\<lambda>e. e \<noteq> old) cache)"
    using new by auto
  then have "cache_response cache key resp now
               = filter (\<lambda>e. e \<noteq> old) cache @ [(key, (now, resp))]"
    using full by (simp add: cache_response_def key del dict_store_new)
  with mem less show ?thesis by blast
qed

theorem cache_response_evicts_oldest_witness:
  "MAX_CACHE_SIZE \<le> length (map (\<lambda>i. (replicate i CHR ''k'', (i, ''r''))) [0..<100])
   \<and> distinct (map fst (map (\<lambda>i. (replicate i CHR ''k'', (i, ''r''))) [0..<100]))
   \<and> distinct (map (\<lambda>e. fst (snd e))
                 (map (\<lambda>i. (replicate i CHR ''k'', (i, ''r''))) [0..<100]))
   \<and> ''new'' \<notin> fst ` set (map (\<lambda>i. (replicate i CHR ''k'', (i, ''r''))) [0..<100])
   \<and> (\<exists>old \<in> set (map (\<lambda>i. (replicate i CHR ''k'', (i, ''r''))) [0..<100]).
         (\<forall>e \<in> set (map (\<lambda>i. (replicate i CHR ''k'', (i, ''r''))) [0..<100]).
            e \<noteq> old \<longrightarrow> fst (snd old) < fst (snd e))
         \<and> cache_response (map (\<lambda>i. (replicate i CHR ''k'', (i, ''r''))) [0..<100])
             ''new'' ''answer'' 100
           = filter (\<lambda>e. e \<noteq> old) (map (\<lambda>i. (replicate i CHR ''k'', (i, ''r''))) [0..<100])
             @ [(''new'', (100, ''answer''))])"
proof -
  define C :: "nat cache" where "C = map (\<lambda>i. (replicate i CHR ''k'', (i, ''r''))) [0..<100]"
  have full: "MAX_CACHE_SIZE \<le> length C"
    by (simp add: C_def MAX_CACHE_SIZE_def)
  have "map fst C = map (\<lambda>i. replicate i CHR ''k'') [0..<100]"
    by (simp add: C_def comp_def)
  then have keys: "distinct (map fst C)"
    by (simp add: distinct_map inj_on_def)
  have "map (\<lambda>e. fst (snd e)) C = [0..<100]"
    by (simp add: C_def comp_def)
  then have times: "distinct (map (\<lambda>e. fst (snd e)) C)"
    by simp
  have new: "''new'' \<notin> fst ` set C"
    by (auto simp: C_def Cons_replicate_eq)
  from cache_response_evicts_oldest [OF keys times full new, of "''answer''" 100]
    full keys times new
  show ?thesis
    unfolding C_def by blast
qed

lemma run_inserts_append:
  "run_inserts cache (ops @ [(key, resp, now)])
     = cache_response (run_inserts cache ops) key resp now"
  by (induction cache ops rule: run_inserts.induct) simp_all

lemma min_by_time_first:
  "\<forall>e \<in> set es. fst (snd b) < fst (snd e) \<Longrightarrow> min_by_time b es = b"
  by (induction es) (auto simp: not_less_iff_gr_or_eq)

lemma dict_delete_first:
  "distinct (map fst (e # es)) \<Longrightarrow> dict_delete (fst e) (e # es) = es"
  unfolding dict_delete_def by (auto intro!: filter_True simp: image_iff)

lemma cache_response_sorted:
  fixes cache :: "('t::linorder) cache"
  assumes keys: "distinct (map fst cache)"
    and times: "sorted_wrt (<) (map (\<lambda>e. fst (snd e)) cache)"
    and new: "key \<notin> fst ` set cache"
    and len: "length cache \<le> MAX_CACHE_SIZE"
  shows "cache_response cache key resp now
           = drop (Suc (length cache) - MAX_CACHE_SIZE) cache @ [(key, (now, resp))]"
proof (cases "length cache < MAX_CACHE_SIZE")
  case True
  with new show ?thesis
    by (simp add: cache_response_def dict_store_new)
next
  case False
  with len have full: "length cache = MAX_CACHE_SIZE" by simp
  then obtain e es where cache: "cache = e # es"
    by (cases cache) (auto simp: MAX_CACHE_SIZE_def)
  from times have "\<forall>x \<in> set es. fst (snd e) < fst (snd x)"
    by (simp add: cache)
  then have "min_by_time e es = e"
    by (rule min_by_time_first)
  then have old: "oldest_key cache = Some (fst e)"
    by (simp add: oldest_key_def cache)
  from keys have del: "dict_delete (fst e) cache = es"
    unfolding cache by (rule dict_delete_first)
  from new have "key \<notin> fst ` set es"
    by (simp add: cache)
  then have "cache_response cache key resp now = es @ [(key, (now, resp))]"
    using full by (simp add: cache_response_def old del dict_store_new)
  moreover have "drop (Suc (length cache) - MAX_CACHE_SIZE) cache = es"
    using full by (simp add: cache)
  ultimately show ?thesis by simp
qed

text \<open>
  A run of insertions of pairwise different keys at growing times, started on the
  empty cache, leaves the items of the last \<open>MAX_CACHE_SIZE\<close> insertions, in the order
  in which they were made: every eviction on the way removed the item that had been
  inserted first.
\<close>

lemma run_inserts_keeps_latest:
  fixes ops :: "(string \<times> string \<times> ('t::linorder)) list"
  assumes "distinct (map fst ops)"
    and "sorted_wrt (<) (map (\<lambda>op. snd (snd op)) ops)"
  shows "run_inserts [] ops = map cache_item (drop (length ops - MAX_CACHE_SIZE) ops)"
  using assms
proof (induction ops rule: rev_induct)
  case Nil
  show ?case by simp
next
  case (snoc op ops)
  obtain key resp now where op: "op = (key, resp, now)"
    by (cases op) auto
  let ?C = "map cache_item (drop (length ops - MAX_CACHE_SIZE) ops)"
  from snoc.prems have d: "distinct (map fst ops)" and k: "key \<notin> fst ` set ops"
    and s: "sorted_wrt (<) (map (\<lambda>op. snd (snd op)) ops)"
    by (auto simp: op sorted_wrt_append)
  from snoc.IH [OF d s] have run: "run_inserts [] ops = ?C" .
  have fst_item: "map fst ?C = drop (length ops - MAX_CACHE_SIZE) (map fst ops)"
    by (simp add: cache_item_def drop_map comp_def)
  have time_item: "map (\<lambda>e. fst (snd e)) ?C
                   = drop (length ops - MAX_CACHE_SIZE) (map (\<lambda>op. snd (snd op)) ops)"
    by (simp add: cache_item_def drop_map comp_def)
  have keys: "distinct (map fst ?C)"
    unfolding fst_item using d by (rule distinct_drop)
  have times: "sorted_wrt (<) (map (\<lambda>e. fst (snd e)) ?C)"
    unfolding time_item using s by (rule sorted_wrt_drop)
  have "fst ` set ?C \<subseteq> fst ` set ops"
    by (force simp: cache_item_def dest: in_set_dropD)
  with k have new: "key \<notin> fst ` set ?C" by blast
  have len: "length ?C \<le> MAX_CACHE_SIZE"
    by simp
  have "run_inserts [] (ops @ [op]) = cache_response ?C key resp now"
    by (simp only: op run_inserts_append run)
  also have "\<dots> = drop (Suc (length ?C) - MAX_CACHE_SIZE) ?C @ [(key, (now, resp))]"
    by (rule cache_response_sorted [OF keys times new len])
  also have "\<dots> = map cache_item (drop (length (ops @ [op]) - MAX_CACHE_SIZE) (ops @ [op]))"
  proof -
    have idx: "Suc (length ?C) - MAX_CACHE_SIZE + (length ops - MAX_CACHE_SIZE)
               = length (ops @ [op]) - MAX_CACHE_SIZE"
      by (simp add: MAX_CACHE_SIZE_def)
    have "drop (Suc (length ?C) - MAX_CACHE_SIZE) ?C
          = map cache_item (drop (length (ops @ [op]) - MAX_CACHE_SIZE) ops)"
      by (simp only: drop_map drop_drop idx)
    moreover have "length (ops @ [op]) - MAX_CACHE_SIZE \<le> length ops"
      by (simp add: MAX_CACHE_SIZE_def)
    ultimately show ?thesis
      by (simp add: cache_item_def op)
  qed
  finally show ?case .
qed


section \<open>Properties of the input normaliser\<close>

lemma good_words_ConsI:
  assumes "w \<noteq> []" and "\<forall>c \<in> set w. \<not> is_space c" and "good_words ws"
  shows "good_words (w # ws)"
  using assms unfolding good_words_def by simp

lemma split_ws_good: "good_words (split_ws s)"
proof (induction s rule: split_ws.induct)
  case 1
  show ?case by (simp add: good_words_def)
next
  case (2 c cs)
  show ?case
  proof (cases "is_space c")
    case True
    from "2.IH"(1) [OF True] True show ?thesis
      by (simp only: split_ws.simps if_True)
  next
    case False
    let ?w = "c # takeWhile (\<lambda>x. \<not> is_space x) cs"
    have eq: "split_ws (c # cs) = ?w # split_ws (dropWhile (\<lambda>x. \<not> is_space x) cs)"
      using False by (simp only: split_ws.simps if_False)
    have "\<And>x. x \<in> set (takeWhile (\<lambda>x. \<not> is_space x) cs) \<Longrightarrow> \<not> is_space x"
      by (blast dest: set_takeWhileD)
    with False have "\<forall>x \<in> set ?w. \<not> is_space x"
      by (metis set_ConsD)
    moreover have "?w \<noteq> []"
      by (rule list.distinct(2))
    ultimately have "good_words (?w # split_ws (dropWhile (\<lambda>x. \<not> is_space x) cs))"
      using "2.IH"(2) [OF False] by (intro good_words_ConsI)
    then show ?thesis
      by (simp only: eq)
  qed
qed

lemma split_ws_chars: "w \<in> set (split_ws s) \<Longrightarrow> set w \<subseteq> set s"
proof (induction s arbitrary: w rule: split_ws.induct)
  case 1
  then show ?case by simp
next
  case (2 c cs)
  show ?case
  proof (cases "is_space c")
    case True
    with "2.prems" have "w \<in> set (split_ws cs)"
      by simp
    from "2.IH"(1) [OF True this] show ?thesis
      by auto
  next
    case False
    with "2.prems" consider "w = c # takeWhile (\<lambda>x. \<not> is_space x) cs"
      | "w \<in> set (split_ws (dropWhile (\<lambda>x. \<not> is_space x) cs))"
      by auto
    then show ?thesis
    proof cases
      case 1
      have "set (takeWhile (\<lambda>x. \<not> is_space x) cs) \<subseteq> set cs"
        by (blast dest: set_takeWhileD)
      with 1 show ?thesis by auto
    next
      case 2
      from "2.IH"(2) [OF False this] have "set w \<subseteq> set (dropWhile (\<lambda>x. \<not> is_space x) cs)" .
      moreover have "set (dropWhile (\<lambda>x. \<not> is_space x) cs) \<subseteq> set cs"
        by (blast dest: set_dropWhileD)
      ultimately show ?thesis by auto
    qed
  qed
qed

lemma join_chars: "set (join '' '' ws) \<subseteq> \<Union> (set ` set ws) \<union> {CHR '' ''}"
  by (induction "'' ''" ws rule: join.induct) auto

lemma strip_chars: "set (strip s) \<subseteq> set s"
  unfolding strip_def by (auto dest!: set_dropWhileD)

lemma split_ws_word:
  assumes "w \<noteq> []" and "\<forall>c \<in> set w. \<not> is_space c"
  shows "split_ws (w @ CHR '' '' # rest) = w # split_ws rest"
    and "split_ws w = [w]"
proof -
  from assms obtain c cs where w: "w = c # cs" and c: "\<not> is_space c"
    and cs: "\<forall>x \<in> set cs. \<not> is_space x"
    by (cases w) auto
  have sp: "is_space CHR '' ''"
    by (simp add: is_space_def)
  from cs sp have t1: "takeWhile (\<lambda>x. \<not> is_space x) (cs @ CHR '' '' # rest) = cs"
    by (simp add: takeWhile_append2)
  from cs sp have d1: "dropWhile (\<lambda>x. \<not> is_space x) (cs @ CHR '' '' # rest) = CHR '' '' # rest"
    by (simp add: dropWhile_append2)
  have "split_ws (w @ CHR '' '' # rest) = (c # cs) # split_ws (CHR '' '' # rest)"
    using c by (simp only: w append_Cons split_ws.simps(2) if_False t1 d1)
  then show "split_ws (w @ CHR '' '' # rest) = w # split_ws rest"
    using sp by (simp only: w split_ws.simps(2) if_True)
  from cs have t2: "takeWhile (\<lambda>x. \<not> is_space x) cs = cs"
    by simp
  from cs have d2: "dropWhile (\<lambda>x. \<not> is_space x) cs = []"
    by simp
  show "split_ws w = [w]"
    using c by (simp only: w split_ws.simps if_False t2 d2)
qed

lemma split_ws_join: "good_words ws \<Longrightarrow> split_ws (join '' '' ws) = ws"
proof (induction "'' ''" ws rule: join.induct)
  case 1
  then show ?case by simp
next
  case (2 x)
  then show ?case
    by (simp add: good_words_def split_ws_word(2))
next
  case (3 x y ys)
  from "3.prems" have x: "x \<noteq> []" "\<forall>c \<in> set x. \<not> is_space c" and rest: "good_words (y # ys)"
    by (simp_all add: good_words_def)
  from "3.hyps" [OF rest] split_ws_word(1) [OF x, of "join '' '' (y # ys)"]
  show ?case by simp
qed

lemma join_ends:
  assumes "good_words ws" and "ws \<noteq> []"
  shows "join '' '' ws \<noteq> [] \<and> \<not> is_space (hd (join '' '' ws))
         \<and> \<not> is_space (last (join '' '' ws))"
  using assms
proof (induction "'' ''" ws rule: join.induct)
  case 1
  then show ?case by simp
next
  case (2 x)
  then have "x \<noteq> []" and "\<forall>c \<in> set x. \<not> is_space c"
    by (simp_all add: good_words_def)
  then show ?case
    using hd_in_set [of x] last_in_set [of x] by simp
next
  case (3 x y ys)
  from "3.prems" have x: "x \<noteq> []" "\<forall>c \<in> set x. \<not> is_space c" and rest: "good_words (y # ys)"
    by (simp_all add: good_words_def)
  from "3.hyps" [OF rest] have "join '' '' (y # ys) \<noteq> []"
    and "\<not> is_space (last (join '' '' (y # ys)))"
    by simp_all
  moreover from x have "\<not> is_space (hd x)"
    by (cases x) auto
  ultimately show ?case
    using x by simp
qed

lemma strip_id:
  assumes "s = [] \<or> (\<not> is_space (hd s) \<and> \<not> is_space (last s))"
  shows "strip s = s"
proof (cases "s = []")
  case True
  then show ?thesis by (simp add: strip_def)
next
  case False
  with assms have h: "\<not> is_space (hd s)" and l: "\<not> is_space (last s)"
    by simp_all
  from False h have 1: "dropWhile is_space s = s"
    by (cases s) auto
  from False l have 2: "dropWhile is_space (rev s) = rev s"
    by (cases s rule: rev_cases) auto
  show ?thesis
    by (simp add: strip_def 1 2)
qed

lemma normalise_idem: "normalise (normalise s) = normalise s"
proof -
  let ?ws = "split_ws (strip s)"
  have g: "good_words ?ws" by (rule split_ws_good)
  have "strip (join '' '' ?ws) = join '' '' ?ws"
  proof (cases "?ws = []")
    case True
    then show ?thesis by (simp add: strip_def)
  next
    case False
    from join_ends [OF g False] show ?thesis
      by (intro strip_id) simp
  qed
  then show ?thesis
    by (simp add: normalise_def split_ws_join [OF g])
qed

lemma normalise_chars: "set (normalise s) \<subseteq> set s \<union> {CHR '' ''}"
proof -
  have "\<Union> (set ` set (split_ws (strip s))) \<subseteq> set s"
    using split_ws_chars [of _ "strip s"] strip_chars [of s] by blast
  with join_chars [of "split_ws (strip s)"] show ?thesis
    unfolding normalise_def by blast
qed

lemma sanitize_input_normalise: "sanitize_input s = filter (\<lambda>c. \<not> is_unsafe c) (normalise s)"
  by (simp add: sanitize_input_def normalise_def strip_def)

lemma sanitize_input_safe:
  assumes "list_all (\<lambda>c. \<not> is_unsafe c) s"
  shows "sanitize_input s = normalise s"
proof -
  have "\<not> is_unsafe CHR '' ''"
    by (simp add: is_unsafe_def)
  with assms normalise_chars [of s] have "\<forall>c \<in> set (normalise s). \<not> is_unsafe c"
    by (auto simp: list_all_iff)
  then show ?thesis
    by (simp add: sanitize_input_normalise)
qed

lemma sanitize_input_idem_safe:
  assumes "list_all (\<lambda>c. \<not> is_unsafe c) s"
  shows "sanitize_input (sanitize_input s) = sanitize_input s"
proof -
  have n: "sanitize_input s = normalise s"
    by (rule sanitize_input_safe [OF assms])
  have "list_all (\<lambda>c. \<not> is_unsafe c) (sanitize_input s)"
    by (simp add: sanitize_input_normalise list_all_iff)
  then have "sanitize_input (sanitize_input s) = normalise (sanitize_input s)"
    by (rule sanitize_input_safe)
  then show ?thesis
    by (simp add: n normalise_idem)
qed

text \<open>
  C10. \<open>sanitize_input\<close> is not idempotent: the unsafe characters are removed after
  the whitespace has been collapsed, so removing \<open><\<close> from \<open>a < b\<close> leaves two
  adjacent spaces, which the second application collapses.
\<close>

theorem sanitize_input_idempotent_counterexample:
  "sanitize_input ''a < b'' = ''a  b''
   \<and> sanitize_input (sanitize_input ''a < b'') = ''a b''"
  by code_simp

text \<open>
  C10, as amended. The result of \<open>sanitize_input\<close> holds none of the characters
  \<open>< > " '\<close>. On a text that holds none of these characters \<open>sanitize_input\<close> is
  idempotent. On every text the second application gives a fixed point: a third
  application changes nothing.
\<close>

theorem sanitize_input_idempotent_on_safe_text:
  "list_all (\<lambda>c. \<not> is_unsafe c) (sanitize_input s)
   \<and> (list_all (\<lambda>c. \<not> is_unsafe c) s \<longrightarrow>
        sanitize_input (sanitize_input s) = sanitize_input s)
   \<and> sanitize_input (sanitize_input (sanitize_input s)) = sanitize_input (sanitize_input s)"
proof -
  have safe: "list_all (\<lambda>c. \<not> is_unsafe c) (sanitize_input s)"
    by (simp add: sanitize_input_normalise list_all_iff)
  from sanitize_input_idem_safe [OF safe] sanitize_input_idem_safe [of s] safe
  show ?thesis by blast
qed

theorem sanitize_input_idempotent_on_safe_text_witness:
  "list_all (\<lambda>c. \<not> is_unsafe c) ''  hello   world ''
   \<and> sanitize_input ''  hello   world '' = ''hello world''
   \<and> sanitize_input (sanitize_input ''  hello   world '') = ''hello world''"
proof -
  have h: "list_all (\<lambda>c. \<not> is_unsafe c) ''  hello   world ''"
    by (simp add: is_unsafe_def)
  have v: "sanitize_input ''  hello   world '' = ''hello world''"
    by code_simp
  from sanitize_input_idempotent_on_safe_text [of "''  hello   world ''"] h
  have "sanitize_input (sanitize_input ''  hello   world '') = sanitize_input ''  hello   world ''"
    by blast
  with h v show ?thesis by simp
qed

end
